theory Spec2Isabelle
  imports Main
begin

section \<open>Data model\<close>

text \<open>
  One row of the user table, with the columns that
  \<^verbatim>\<open>mxcubeweb/core/components/user/usermanager.py\<close> reads or writes.
  \<open>last_request_timestamp\<close> is \<open>None\<close> while no request has been recorded;
  times are integers (any fixed unit), so a duration is a difference of two of them.
\<close>

record user =
  username :: string
  nickname :: string
  session_id :: string
  selected_proposal :: "string option"
  limsdata :: string
  roles :: "string list"
  active :: bool
  in_control :: bool
  last_request_timestamp :: "int option"

text \<open>
  \<^verbatim>\<open>User.query.all()\<close>: the rows of the table, in the order the query returns
  them. A row is identified by its position, as the objects of the query are by
  their identity.
\<close>

type_synonym registry = "user list"

text \<open>
  What the code reads from its surroundings and does not define itself: the
  beamline and application configuration, the LIMS adapter's \<open>get_proposal\<close>, and the
  properties \<open>is_authenticated\<close> and \<open>isstaff\<close> of the \<open>User\<close> class, which is declared
  in \<^verbatim>\<open>mxcubeweb.core.models.usermodels\<close>. They are parameters of the model.
\<close>

record env =
  loginType :: string
  in_house_users :: "(string \<times> string) list"
  ALLOW_REMOTE :: bool
  permanent_session_lifetime :: int
  inhouse_is_staff :: bool
  config_users :: "(string \<times> string) list"
  is_authenticated :: "user \<Rightarrow> bool"
  isstaff :: "user \<Rightarrow> bool"
  get_proposal :: "user \<Rightarrow> string"

text \<open>
  What one request brings: the row \<open>current_user\<close> stands for (\<open>None\<close> for the
  anonymous user), the answer of \<open>is_local_host()\<close>, and the clock reading
  \<open>datetime.datetime.now()\<close>, one reading for the whole request.
\<close>

record request =
  current_user :: "nat option"
  is_local_host :: bool
  now :: int

text \<open>
  The answers of the LIMS adapter for one login attempt: the result of
  \<open>lims_login\<close>, what \<open>lims_valid_login\<close> and \<open>lims_existing_session\<close> say about it,
  and what \<open>create_lims_session\<close> would return for it.
\<close>

record lims_reply =
  login_res :: string
  lims_valid_login :: bool
  lims_existing_session :: bool
  create_lims_session :: string

text \<open>
  One constructor for each \<^verbatim>\<open>raise\<close> of \<open>_login\<close>, in the order of the source
  (\<open>ProposalConflict\<close> and \<open>SingleUserConflict\<close> carry the same message there,
  "Another user is already logged in"), and \<open>AttributeError\<close> for an attribute read
  on \<open>None\<close> or on the anonymous user.
\<close>

datatype error =
    AlreadyLoggedIn
  | LoggedInSomewhereElse
  | InhouseOnlyFromLocalhost
  | ProposalConflict
  | SingleUserConflict
  | RemoteAccessDisabled
  | InvalidLogin
  | AttributeError

section \<open>Strings\<close>

text \<open>
  \<^verbatim>\<open>str.lower()\<close> on the ASCII letters. The code only compares the result with
  \<^verbatim>\<open>"user"\<close>, and no character outside ASCII is lowered to one of these four
  letters.
\<close>

definition lower_char :: "char \<Rightarrow> char" where
  "lower_char c =
     (case map_of (zip ''ABCDEFGHIJKLMNOPQRSTUVWXYZ'' ''abcdefghijklmnopqrstuvwxyz'') c of
        None \<Rightarrow> c
      | Some l \<Rightarrow> l)"

definition lower :: "string \<Rightarrow> string" where
  "lower s = map lower_char s"

text \<open>\<^verbatim>\<open>HWR.beamline.lims.loginType.lower() == "user"\<close>\<close>

definition user_mode :: "env \<Rightarrow> bool" where
  "user_mode e = (lower (loginType e) = ''user'')"

text \<open>\<^verbatim>\<open>p.split("-")[0]\<close>: the part of \<open>p\<close> before its first hyphen.\<close>

definition split_first :: "string \<Rightarrow> string" where
  "split_first p = takeWhile (\<lambda>c. c \<noteq> CHR ''-'') p"

section \<open>The datastore\<close>

text \<open>
  \<^verbatim>\<open>user_datastore.find_user(username=...)\<close>: the position of the first row
  with that username.
\<close>

fun find_user :: "registry \<Rightarrow> string \<Rightarrow> nat option" where
  "find_user [] name = None"
| "find_user (u # us) name =
     (if username u = name then Some 0 else map_option Suc (find_user us name))"

definition deactivate_user :: "user \<Rightarrow> user" where
  "deactivate_user u = u\<lparr>active := False\<rparr>"

definition activate_user :: "user \<Rightarrow> user" where
  "activate_user u = u\<lparr>active := True\<rparr>"

definition delete_user :: "nat \<Rightarrow> registry \<Rightarrow> registry" where
  "delete_user i reg = take i reg @ drop (Suc i) reg"

text \<open>
  The row of \<open>current_user\<close>; a position outside the table is a session whose row
  is gone, which is served as the anonymous user.
\<close>

definition resolve :: "registry \<Rightarrow> request \<Rightarrow> nat option" where
  "resolve reg rq =
     (case current_user rq of
        None \<Rightarrow> None
      | Some i \<Rightarrow> if i < length reg then Some i else None)"

definition is_anonymous :: "registry \<Rightarrow> request \<Rightarrow> bool" where
  "is_anonymous reg rq = (resolve reg rq = None)"

section \<open>BaseUserManager\<close>

text \<open>
  \<open>get_user\<close>: the loop keeps the last row whose username matches; the result is
  the row with its position.
\<close>

definition get_user :: "registry \<Rightarrow> string \<Rightarrow> (nat \<times> user) option" where
  "get_user reg name =
     fold (\<lambda>(i, u) found. if username u = name then Some (i, u) else found)
       (enumerate 0 reg) None"

text \<open>
  \<open>update_active_users\<close>: the condition of the loop, and the loop. The signals
  it emits change no row and are left out.
\<close>

definition timed_out :: "env \<Rightarrow> int \<Rightarrow> user \<Rightarrow> bool" where
  "timed_out e t u =
     (active u \<and>
      (case last_request_timestamp u of
         None \<Rightarrow> False
       | Some ts \<Rightarrow> t - ts > permanent_session_lifetime e))"

definition update_active_users :: "env \<Rightarrow> int \<Rightarrow> registry \<Rightarrow> registry" where
  "update_active_users e t reg =
     map (\<lambda>u. if timed_out e t u then deactivate_user u else u) reg"

text \<open>\<open>active_logged_in_users\<close>: the table after the sweep, and the usernames.\<close>

definition active_logged_in_users ::
  "env \<Rightarrow> int \<Rightarrow> bool \<Rightarrow> registry \<Rightarrow> registry \<times> string list" where
  "active_logged_in_users e t exclude_inhouse reg =
     (let reg' = update_active_users e t reg in
      if exclude_inhouse
      then (reg', map username (filter (\<lambda>u. active u \<and> \<not> isstaff e u) reg'))
      else (reg', map username (filter (\<lambda>u. active u) reg')))"

definition is_inhouse_user :: "env \<Rightarrow> string \<Rightarrow> bool" where
  "is_inhouse_user e user_id =
     (user_id \<in> set (map (\<lambda>(code, number). code @ number) (in_house_users e)))"

text \<open>
  \<open>db_set_in_control\<close>: with \<open>control\<close> the loop over all rows; without it the
  row that \<open>find_user\<close> returns, and an \<open>AttributeError\<close> when it returns \<open>None\<close>.
\<close>

definition db_set_in_control ::
  "user \<Rightarrow> bool \<Rightarrow> registry \<Rightarrow> (error + unit) \<times> registry" where
  "db_set_in_control usr control reg =
     (if control
      then (Inr (), map (\<lambda>u. u\<lparr>in_control := (username u = username usr)\<rparr>) reg)
      else (case find_user reg (username usr) of
              None \<Rightarrow> (Inl AttributeError, reg)
            | Some i \<Rightarrow> (Inr (), reg[i := (reg ! i)\<lparr>in_control := False\<rparr>])))"

text \<open>
  \<open>force_signout_user\<close>: \<open>user.in_control\<close> is read first, so a username that no
  row has raises.
\<close>

definition force_signout_user ::
  "request \<Rightarrow> string \<Rightarrow> registry \<Rightarrow> (error + unit) \<times> registry" where
  "force_signout_user rq name reg =
     (case get_user reg name of
        None \<Rightarrow> (Inl AttributeError, reg)
      | Some (i, u) \<Rightarrow>
          if \<not> in_control u \<or> is_anonymous reg rq
          then (Inr (), delete_user i reg)
          else (Inr (), reg))"

text \<open>
  \<open>update_operator\<close>, first loop, over the positions of the rows: a row that is
  authenticated and in control sets the flag \<open>active_in_control\<close>, any other row
  is handed to \<open>db_set_in_control\<close> with \<open>False\<close>.
\<close>

fun update_operator_demote ::
  "env \<Rightarrow> nat list \<Rightarrow> bool \<Rightarrow> registry \<Rightarrow> (error + bool) \<times> registry" where
  "update_operator_demote e [] active_in_control reg = (Inr active_in_control, reg)"
| "update_operator_demote e (i # is) active_in_control reg =
     (if is_authenticated e (reg ! i) \<and> in_control (reg ! i)
      then update_operator_demote e is True reg
      else (case db_set_in_control (reg ! i) False reg of
              (Inl err, reg') \<Rightarrow> (Inl err, reg')
            | (Inr _, reg') \<Rightarrow> update_operator_demote e is active_in_control reg'))"

text \<open>
  What the first loop leaves of one row: a row that is authenticated and in control
  is kept, any other row loses \<open>in_control\<close>.
\<close>

definition demoted :: "env \<Rightarrow> user \<Rightarrow> user" where
  "demoted e u = (if is_authenticated e u \<and> in_control u then u else u\<lparr>in_control := False\<rparr>)"

text \<open>
  \<open>update_operator\<close>, last loop: the arguments of the calls of
  \<open>lims.select_proposal\<close>, in the order they are made. A stored
  \<open>selected_proposal\<close> counts when it is neither \<open>None\<close> nor empty. The LIMS
  adapter is outside the table: its calls are taken to change no row.
\<close>

definition select_proposal_of :: "env \<Rightarrow> user \<Rightarrow> string list" where
  "select_proposal_of e u =
     (if \<not> user_mode e then [get_proposal e u]
      else (case selected_proposal u of
              None \<Rightarrow> []
            | Some p \<Rightarrow> if p \<noteq> [] then [p] else []))"

definition update_operator_select :: "env \<Rightarrow> registry \<Rightarrow> string list" where
  "update_operator_select e reg =
     concat (map (\<lambda>u. if is_authenticated e u \<and> in_control u
                       then select_proposal_of e u else []) reg)"

text \<open>
  \<open>update_operator\<close>, with \<open>current_user\<close> the row at position \<open>cu\<close>. Both callers
  run it for a logged-in user (\<open>login\<close> after \<open>login_user\<close>, \<open>login_info\<close> after its
  test of \<open>is_anonymous\<close>). A position outside the table is the anonymous user,
  which has no row: the first loop runs all the same, the nickname written to the
  anonymous user is lost, and when nobody is in control the read of its username or
  proposal raises. The result is the list of proposals selected.
\<close>

definition update_operator ::
  "env \<Rightarrow> nat \<Rightarrow> bool \<Rightarrow> registry \<Rightarrow> (error + string list) \<times> registry" where
  "update_operator e cu new_login reg =
     (case update_operator_demote e [0..<length reg] False reg of
        (Inl err, reg1) \<Rightarrow> (Inl err, reg1)
      | (Inr active_in_control, reg1) \<Rightarrow>
          if \<not> cu < length reg
          then (if active_in_control then (Inr (update_operator_select e reg1), reg1)
                else (Inl AttributeError, reg1))
          else
            (let reg2 = (if new_login then reg1[cu := (reg1 ! cu)\<lparr>nickname := []\<rparr>] else reg1)
             in
              (case
                 (if \<not> active_in_control
                  then
                   (let reg3 =
                          reg2[cu := (reg2 ! cu)\<lparr>nickname :=
                                 (if \<not> user_mode e then get_proposal e (reg2 ! cu)
                                  else username (reg2 ! cu))\<rparr>]
                    in db_set_in_control (reg3 ! cu) True reg3)
                  else (Inr (), reg2))
               of
                 (Inl err, reg4) \<Rightarrow> (Inl err, reg4)
               | (Inr _, reg4) \<Rightarrow> (Inr (update_operator_select e reg4), reg4))))"

text \<open>
  \<open>_get_configured_roles\<close>: a set in the source, here a list without repetition.
  Every configured role is taken to be a role of the datastore, so that the commit
  of \<open>db_create_user\<close> goes through.
\<close>

definition get_configured_roles :: "env \<Rightarrow> string \<Rightarrow> string list" where
  "get_configured_roles e usr =
     remdups
       ((if inhouse_is_staff e \<and> is_inhouse_user e usr then [''staff''] else []) @
        (case List.find (\<lambda>(name, role). name = usr) (config_users e) of
           None \<Rightarrow> []
         | Some (name, role) \<Rightarrow> [role]))"

text \<open>\<^verbatim>\<open>user_datastore.append_roles\<close>: the roles the row does not have yet.\<close>

definition append_roles :: "user \<Rightarrow> string list \<Rightarrow> user" where
  "append_roles u rs = u\<lparr>roles := roles u @ filter (\<lambda>r. r \<notin> set (roles u)) rs\<rparr>"

text \<open>
  Modelled from the spec: the \<open>User\<close> class with its column defaults
  (\<^verbatim>\<open>mxcubeweb.core.models.usermodels\<close>) is not among the sources. A session is
  created as an observer and is promoted afterwards, and its activity timestamp is
  written by later requests: the row that \<^verbatim>\<open>user_datastore.create_user\<close> adds
  has the columns it is given, is active, has \<open>in_control = False\<close> and no timestamp.
\<close>

definition create_user ::
  "string \<Rightarrow> string \<Rightarrow> string \<Rightarrow> string option \<Rightarrow> string \<Rightarrow> string list \<Rightarrow> user" where
  "create_user uname nick sid proposal lims_data rs =
     \<lparr>username = uname, nickname = nick, session_id = sid, selected_proposal = proposal,
      limsdata = lims_data, roles = rs, active = True, in_control = False,
      last_request_timestamp = None\<rparr>"

text \<open>
  \<open>db_create_user\<close>, with \<open>sid\<close> the session's id and \<open>uuid\<close> the value of
  \<^verbatim>\<open>str(uuid.uuid4())\<close>. The result is what the final \<open>find_user\<close> returns. The
  query lists a new row after the rows that exist.
\<close>

definition db_create_user ::
  "env \<Rightarrow> string \<Rightarrow> string \<Rightarrow> string \<Rightarrow> string \<Rightarrow> registry \<Rightarrow> nat option \<times> registry" where
  "db_create_user e usr lims_data sid uuid reg =
     (let uname = (if user_mode e then usr else usr @ ''-'' @ uuid);
          reg' =
            (case find_user reg uname of
               None \<Rightarrow>
                 reg @ [create_user uname usr sid
                          (if \<not> user_mode e then Some usr else None)
                          lims_data (get_configured_roles e usr)]
             | Some i \<Rightarrow>
                 reg[i := append_roles ((reg ! i)\<lparr>limsdata := lims_data\<rparr>)
                            (get_configured_roles e usr)])
      in (find_user reg' uname, reg'))"

section \<open>UserManager\<close>

text \<open>
  \<open>_login\<close>, lines 417 to 428: the test on a session of the same name, with
  \<open>active_users\<close> the usernames that \<open>active_logged_in_users()\<close> returned.
\<close>

definition login_self_conflict ::
  "request \<Rightarrow> string \<Rightarrow> string list \<Rightarrow> registry \<Rightarrow> (error + unit) \<times> registry" where
  "login_self_conflict rq login_id active_users reg =
     (if login_id \<in> set active_users
      then (case resolve reg rq of
              None \<Rightarrow> force_signout_user rq login_id reg
            | Some c \<Rightarrow>
                if username (reg ! c) = login_id then (Inl AlreadyLoggedIn, reg)
                else (Inl LoggedInSomewhereElse, reg))
      else (Inr (), reg))"

text \<open>\<open>_login\<close>, lines 430 to 473: the tests that follow, in their order.\<close>

definition login_admission ::
  "env \<Rightarrow> request \<Rightarrow> string \<Rightarrow> lims_reply \<Rightarrow> string list \<Rightarrow> registry \<Rightarrow>
   (error + string) \<times> registry" where
  "login_admission e rq login_id lims active_users reg =
     (let inhouse = is_inhouse_user e login_id in
      if inhouse \<and> \<not> (inhouse \<and> is_local_host rq)
      then (Inl InhouseOnlyFromLocalhost, reg)
      else
       (let (reg', non_inhouse_active_users) =
              active_logged_in_users e (now rq) True reg
        in
         if \<not> inhouse \<and> non_inhouse_active_users \<noteq> [] \<and>
            login_id \<notin> set (map split_first non_inhouse_active_users) \<and>
            \<not> user_mode e
         then (Inl ProposalConflict, reg')
         else if (case resolve reg' rq of
                    None \<Rightarrow> False
                  | Some c \<Rightarrow>
                      active_users \<noteq> [] \<and> username (reg' ! c) \<noteq> login_id \<and>
                      user_mode e)
         then (Inl SingleUserConflict, reg')
         else if \<not> ALLOW_REMOTE e \<and> \<not> is_local_host rq
         then (Inl RemoteAccessDisabled, reg')
         else if lims_valid_login lims
         then (Inr (if \<not> lims_existing_session lims then create_lims_session lims
                    else login_res lims), reg')
         else (Inl InvalidLogin, reg')))"

text \<open>
  \<open>_login\<close>. The result is the LIMS session that is returned, or the error that is
  raised, with the table as it is at that moment.
\<close>

definition UserManager_login ::
  "env \<Rightarrow> request \<Rightarrow> string \<Rightarrow> lims_reply \<Rightarrow> registry \<Rightarrow> (error + string) \<times> registry" where
  "UserManager_login e rq login_id lims reg =
     (let (reg1, active_users) = active_logged_in_users e (now rq) False reg in
      (case login_self_conflict rq login_id active_users reg1 of
         (Inl err, reg2) \<Rightarrow> (Inl err, reg2)
       | (Inr _, reg2) \<Rightarrow> login_admission e rq login_id lims active_users reg2))"

text \<open>
  \<open>login\<close>. The sample changer is asked about its sample and changes no row.
  The result on success is the list of proposals that \<open>update_operator\<close> selects.
\<close>

definition login ::
  "env \<Rightarrow> request \<Rightarrow> string \<Rightarrow> lims_reply \<Rightarrow> string \<Rightarrow> string \<Rightarrow> registry \<Rightarrow>
   (error + string list) \<times> registry" where
  "login e rq login_id lims sid uuid reg =
     (case UserManager_login e rq login_id lims reg of
        (Inl err, reg1) \<Rightarrow> (Inl err, reg1)
      | (Inr res, reg1) \<Rightarrow>
          (let reg2 = update_active_users e (now rq) reg1 in
           (case db_create_user e login_id res sid uuid reg2 of
              (None, reg3) \<Rightarrow> (Inl AttributeError, reg3)
            | (Some i, reg3) \<Rightarrow>
                update_operator e i True (reg3[i := activate_user (reg3 ! i)]))))"

text \<open>
  \<open>signout\<close>. The queue and the sample list that an operator's signout resets are
  not rows of the table. The anonymous user has no column \<open>active\<close> to clear.
\<close>

definition signout :: "request \<Rightarrow> registry \<Rightarrow> (error + unit) \<times> registry" where
  "signout rq reg =
     (case resolve reg rq of
        None \<Rightarrow> (Inl AttributeError, reg)
      | Some c \<Rightarrow>
          (case (if in_control (reg ! c) then db_set_in_control (reg ! c) False reg
                 else (Inr (), reg))
           of
             (Inl err, reg1) \<Rightarrow> (Inl err, reg1)
           | (Inr _, reg1) \<Rightarrow> (Inr (), reg1[c := deactivate_user (reg1 ! c)])))"

section \<open>Sequences of operations\<close>

text \<open>
  Modelled from the spec: the code that records the time of a request is not among
  the sources. \<open>touch\<close> sets the activity timestamp of a row and does nothing when
  the row is absent.
\<close>

definition touch :: "nat \<Rightarrow> int \<Rightarrow> registry \<Rightarrow> registry" where
  "touch i t reg =
     (if i < length reg then reg[i := (reg ! i)\<lparr>last_request_timestamp := Some t\<rparr>]
      else reg)"

datatype operation =
    Login request string lims_reply string string
  | Signout request
  | ForceSignout request string
  | Sweep int
  | Touch nat int

text \<open>The table after one operation, whether it returns or raises.\<close>

fun step :: "env \<Rightarrow> operation \<Rightarrow> registry \<Rightarrow> registry" where
  "step e (Login rq login_id lims sid uuid) reg = snd (login e rq login_id lims sid uuid reg)"
| "step e (Signout rq) reg = snd (signout rq reg)"
| "step e (ForceSignout rq name) reg = snd (force_signout_user rq name reg)"
| "step e (Sweep t) reg = update_active_users e t reg"
| "step e (Touch i t) reg = touch i t reg"

definition run :: "env \<Rightarrow> operation list \<Rightarrow> registry \<Rightarrow> registry" where
  "run e ops reg = fold (step e) ops reg"

text \<open>
  The invariant of the table: usernames are distinct, and at most one row has
  \<open>in_control\<close>.
\<close>

definition well_formed :: "registry \<Rightarrow> bool" where
  "well_formed reg = (distinct (map username reg) \<and> length (filter in_control reg) \<le> 1)"

section \<open>Sample data\<close>

text \<open>
  An environment for each login mode, with \<open>is_authenticated\<close> the column \<open>active\<close>
  and \<open>isstaff\<close> the role "staff", and rows to run the operations on.
\<close>

definition beamline :: "string \<Rightarrow> env" where
  "beamline mode =
     \<lparr>loginType = mode, in_house_users = [(''ih'', ''007'')], ALLOW_REMOTE = True,
      permanent_session_lifetime = 60, inhouse_is_staff = False, config_users = [],
      is_authenticated = active, isstaff = (\<lambda>u. ''staff'' \<in> set (roles u)),
      get_proposal = (\<lambda>u. split_first (username u))\<rparr>"

definition row :: "string \<Rightarrow> bool \<Rightarrow> bool \<Rightarrow> int option \<Rightarrow> user" where
  "row name act ctl ts =
     \<lparr>username = name, nickname = name, session_id = [], selected_proposal = None,
      limsdata = [], roles = [], active = act, in_control = ctl,
      last_request_timestamp = ts\<rparr>"

definition browser :: "nat option \<Rightarrow> bool \<Rightarrow> int \<Rightarrow> request" where
  "browser cu local t = \<lparr>current_user = cu, is_local_host = local, now = t\<rparr>"

definition lims_answer :: "bool \<Rightarrow> lims_reply" where
  "lims_answer ok =
     \<lparr>login_res = ''res'', lims_valid_login = ok, lims_existing_session = True,
      create_lims_session = ''new''\<rparr>"

section \<open>Lookup\<close>

lemma get_user_snoc:
  "get_user (reg @ [u]) name =
     (if username u = name then Some (length reg, u) else get_user reg name)"
  by (simp add: get_user_def enumerate_append_eq)

lemma get_user_Nil: "get_user [] name = None"
  by (simp add: get_user_def)

lemma get_user_None_iff: "get_user reg name = None \<longleftrightarrow> name \<notin> username ` set reg"
  by (induction reg rule: rev_induct) (auto simp: get_user_snoc get_user_Nil)

lemma get_user_SomeD:
  "get_user reg name = Some (i, u) \<Longrightarrow> i < length reg \<and> reg ! i = u \<and> username u = name"
  by (induction reg rule: rev_induct)
     (auto simp: get_user_snoc get_user_Nil nth_append split: if_splits)

section \<open>The timeout sweep\<close>

lemma sweep_idem:
  "update_active_users e t (update_active_users e t reg) = update_active_users e t reg"
  by (simp add: update_active_users_def timed_out_def deactivate_user_def)

lemma sweep_length: "length (update_active_users e t reg) = length reg"
  by (simp add: update_active_users_def)

lemma sweep_usernames: "map username (update_active_users e t reg) = map username reg"
  by (simp add: update_active_users_def deactivate_user_def)

lemma sweep_in_control: "map in_control (update_active_users e t reg) = map in_control reg"
  by (simp add: update_active_users_def deactivate_user_def)

lemma sweep_nth:
  "i < length reg \<Longrightarrow>
   update_active_users e t reg ! i =
     (if timed_out e t (reg ! i) then deactivate_user (reg ! i) else reg ! i)"
  by (simp add: update_active_users_def)

text \<open>
  C3, as the code has it. One call of \<open>update_active_users\<close> sets every active
  session inactive whose last activity is older than the session lifetime, changes
  nothing else in that row, and leaves every other row as it is. It writes no
  \<open>in_control\<close> flag at all: no session is promoted, and the flag of an evicted
  operator is not cleared either.
\<close>

theorem sweep_deactivates_only:
  "map in_control (update_active_users e t reg) = map in_control reg \<and>
   (\<forall>i < length reg.
      (\<forall>ts. active (reg ! i) \<and> last_request_timestamp (reg ! i) = Some ts \<and>
            t - ts > permanent_session_lifetime e \<longrightarrow>
            update_active_users e t reg ! i = (reg ! i)\<lparr>active := False\<rparr>) \<and>
      (\<not> timed_out e t (reg ! i) \<longrightarrow> update_active_users e t reg ! i = reg ! i))"
  by (simp add: sweep_in_control sweep_nth timed_out_def deactivate_user_def)

theorem sweep_deactivates_only_witness:
  "map in_control
     (update_active_users (beamline ''user'') 100
        [row ''alice'' True True (Some 0), row ''bob'' True False (Some 90)]) =
     [True, False] \<and>
   update_active_users (beamline ''user'') 100
     [row ''alice'' True True (Some 0), row ''bob'' True False (Some 90)] ! 0 =
     row ''alice'' False True (Some 0) \<and>
   update_active_users (beamline ''user'') 100
     [row ''alice'' True True (Some 0), row ''bob'' True False (Some 90)] ! 1 =
     row ''bob'' True False (Some 90)"
  using sweep_deactivates_only
          [of "beamline ''user''" 100
              "[row ''alice'' True True (Some 0), row ''bob'' True False (Some 90)]"]
  by (simp add: row_def beamline_def timed_out_def)

text \<open>
  The operator \<open>alice\<close>, last seen at time 0, is swept at time 100 with a lifetime
  of 60: she is inactive afterwards and still has \<open>in_control\<close>. The same happens
  in a table that two logins have built.
\<close>

theorem sweep_keeps_in_control_counterexample:
  "timed_out (beamline ''user'') 100 (row ''alice'' True True (Some 0)) \<and>
   update_active_users (beamline ''user'') 100 [row ''alice'' True True (Some 0)] =
     [row ''alice'' False True (Some 0)] \<and>
   \<not> active (row ''alice'' False True (Some 0)) \<and>
   in_control (row ''alice'' False True (Some 0)) \<and>
   map (\<lambda>u. (username u, active u, in_control u))
     (run (beamline ''user'')
        [Login (browser None True 0) ''alice'' (lims_answer True) ''s1'' ''u1'',
         Login (browser None True 1) ''bob'' (lims_answer True) ''s2'' ''u2'',
         Touch 0 0, Touch 1 90, Sweep 100] []) =
     [(''alice'', False, True), (''bob'', True, False)]"
  by code_simp

section \<open>Forced signout of an unknown username\<close>

text \<open>
  C10. \<open>force_signout_user\<close> is defined only when some row has the username: for a
  username that no row has, \<open>get_user\<close> returns \<open>None\<close> and \<open>force_signout_user\<close>
  raises on the read of \<open>in_control\<close>, whoever asks; it neither returns normally
  nor changes the table.
\<close>

theorem force_signout_unknown_raises:
  assumes "\<forall>u \<in> set reg. username u \<noteq> name"
  shows "get_user reg name = None \<and>
         force_signout_user rq name reg = (Inl AttributeError, reg)"
proof -
  from assms have "name \<notin> username ` set reg" by auto
  then have "get_user reg name = None" by (simp add: get_user_None_iff)
  then show ?thesis by (simp add: force_signout_user_def)
qed

theorem force_signout_unknown_raises_witness:
  "get_user [row ''alice'' True True None] ''bob'' = None \<and>
   force_signout_user (browser None True 0) ''bob'' [row ''alice'' True True None] =
     (Inl AttributeError, [row ''alice'' True True None])"
  using force_signout_unknown_raises
          [of "[row ''alice'' True True None]" "''bob''" "browser None True 0"]
  by (simp add: row_def)

section \<open>Admission\<close>

lemmas sample_simps =
  beamline_def row_def browser_def lims_answer_def user_mode_def lower_def lower_char_def
  split_first_def is_inhouse_user_def

lemmas login_simps =
  UserManager_login_def login_self_conflict_def login_admission_def
  active_logged_in_users_def update_active_users_def timed_out_def deactivate_user_def
  force_signout_user_def get_user_def is_anonymous_def resolve_def delete_user_def Let_def

lemma resolve_sweep: "resolve (update_active_users e t reg) rq = resolve reg rq"
  by (simp add: resolve_def sweep_length split: option.splits)

lemma resolve_SomeD: "resolve reg rq = Some c \<Longrightarrow> c < length reg"
  by (auto simp: resolve_def split: option.splits if_splits)

lemma resolve_None_shorter:
  "resolve reg rq = None \<Longrightarrow> length reg' \<le> length reg \<Longrightarrow> resolve reg' rq = None"
  by (auto simp: resolve_def split: option.splits if_splits)

lemma sweep_username_nth:
  "c < length reg \<Longrightarrow> username (update_active_users e t reg ! c) = username (reg ! c)"
  by (simp add: sweep_nth deactivate_user_def)

lemma sweep_fixed:
  "\<forall>u \<in> set reg. \<not> timed_out e t u \<Longrightarrow> update_active_users e t reg = reg"
  by (simp add: update_active_users_def map_idI)

lemma sweep_not_timed_out: "u \<in> set (update_active_users e t reg) \<Longrightarrow> \<not> timed_out e t u"
  by (auto simp: update_active_users_def timed_out_def deactivate_user_def)

lemma set_delete_user: "set (delete_user i reg) \<subseteq> set reg"
  by (auto simp: delete_user_def dest: in_set_takeD in_set_dropD)

lemma length_delete_user: "length (delete_user i reg) \<le> length reg"
  by (simp add: delete_user_def)

lemma sweep_delete_fixed:
  "update_active_users e t (delete_user i (update_active_users e t reg)) =
     delete_user i (update_active_users e t reg)"
  using set_delete_user sweep_not_timed_out by (intro sweep_fixed) blast

lemma delete_user_name_gone:
  assumes "distinct (map f xs)" "i < length xs"
  shows "f (xs ! i) \<notin> f ` set (delete_user i xs)"
proof -
  have "map f xs = map f (take i xs) @ f (xs ! i) # map f (drop (Suc i) xs)"
    using assms(2) by (metis id_take_nth_drop list.simps(9) map_append)
  with assms(1) have "distinct (map f (take i xs) @ f (xs ! i) # map f (drop (Suc i) xs))"
    by simp
  then show ?thesis by (auto simp: delete_user_def)
qed

lemma active_users_fst:
  "fst (active_logged_in_users e t b reg) = update_active_users e t reg"
  by (simp add: active_logged_in_users_def Let_def)

lemma active_users_all:
  "snd (active_logged_in_users e t False reg) =
     map username (filter active (update_active_users e t reg))"
  by (simp add: active_logged_in_users_def Let_def)


lemma UserManager_login_unfold:
  "UserManager_login e rq login_id lims reg =
     (case login_self_conflict rq login_id
             (map username (filter active (update_active_users e (now rq) reg)))
             (update_active_users e (now rq) reg) of
        (Inl err, reg2) \<Rightarrow> (Inl err, reg2)
      | (Inr x, reg2) \<Rightarrow>
          login_admission e rq login_id lims
            (map username (filter active (update_active_users e (now rq) reg))) reg2)"
  by (simp add: UserManager_login_def active_logged_in_users_def Let_def)


lemma self_conflict_skip:
  "login_id \<notin> set active_users \<Longrightarrow>
   login_self_conflict rq login_id active_users reg = (Inr (), reg)"
  by (simp add: login_self_conflict_def)

lemma self_conflict_authenticated:
  "login_id \<in> set active_users \<Longrightarrow> resolve reg rq = Some c \<Longrightarrow>
   login_self_conflict rq login_id active_users reg =
     (Inl (if username (reg ! c) = login_id then AlreadyLoggedIn
           else LoggedInSomewhereElse), reg)"
  by (simp add: login_self_conflict_def)

lemma self_conflict_anonymous:
  "login_id \<in> set active_users \<Longrightarrow> resolve reg rq = None \<Longrightarrow>
   get_user reg login_id = Some (i, u) \<Longrightarrow>
   login_self_conflict rq login_id active_users reg = (Inr (), delete_user i reg)"
  by (simp add: login_self_conflict_def force_signout_user_def is_anonymous_def)

lemma admission_inhouse_remote:
  "is_inhouse_user e login_id \<Longrightarrow> \<not> is_local_host rq \<Longrightarrow>
   login_admission e rq login_id lims active_users reg = (Inl InhouseOnlyFromLocalhost, reg)"
  by (simp add: login_admission_def)

lemma admission_anonymous:
  assumes "resolve reg rq = None"
  shows "login_admission e rq login_id lims active_users reg =
         login_admission e rq login_id lims active_users' reg"
proof -
  have "resolve (update_active_users e (now rq) reg) rq = None"
    using assms by (simp add: resolve_sweep)
  then show ?thesis
    by (simp add: login_admission_def active_logged_in_users_def Let_def)
qed

lemma admission_snd:
  "snd (login_admission e rq login_id lims active_users reg) =
     (if is_inhouse_user e login_id \<and> \<not> is_local_host rq then reg
      else update_active_users e (now rq) reg)"
  by (simp add: login_admission_def active_logged_in_users_def Let_def)

lemma admission_no_self_conflict:
  "fst (login_admission e rq login_id lims active_users reg) \<noteq> Inl AlreadyLoggedIn \<and>
   fst (login_admission e rq login_id lims active_users reg) \<noteq> Inl LoggedInSomewhereElse \<and>
   fst (login_admission e rq login_id lims active_users reg) \<noteq> Inl AttributeError"
  by (simp add: login_admission_def active_logged_in_users_def Let_def)

text \<open>
  C8. A login whose \<open>login_id\<close> is an in-house identity and whose request does not
  come from the local host is rejected, whatever the table, the login mode and the
  configuration are: \<open>_login\<close> raises, and so does \<open>login\<close>.
\<close>

theorem inhouse_remote_rejected:
  assumes "is_inhouse_user e login_id" and "\<not> is_local_host rq"
  shows "\<exists>err. fst (UserManager_login e rq login_id lims reg) = Inl err \<and>
               fst (login e rq login_id lims sid uuid reg) = Inl err"
proof -
  have "\<exists>err. fst (UserManager_login e rq login_id lims reg) = Inl err"
    using assms
    by (auto simp: UserManager_login_unfold admission_inhouse_remote
             split: prod.splits sum.splits)
  then show ?thesis
    by (auto simp: login_def split: prod.splits sum.splits)
qed

theorem inhouse_remote_rejected_witness:
  "fst (UserManager_login (beamline ''proposal'') (browser None False 0) ''ih007''
          (lims_answer True) []) = Inl InhouseOnlyFromLocalhost \<and>
   fst (login (beamline ''proposal'') (browser None False 0) ''ih007''
          (lims_answer True) ''sid'' ''uuid'' []) = Inl InhouseOnlyFromLocalhost"
  using inhouse_remote_rejected
          [of "beamline ''proposal''" "''ih007''" "browser None False 0"
              "lims_answer True" "[]" "''sid''" "''uuid''"]
  by (simp add: login_def login_simps sample_simps)

lemma get_user_distinct:
  assumes "distinct (map username reg)" and "u \<in> set reg"
  shows "\<exists>i. get_user reg (username u) = Some (i, u) \<and> i < length reg"
proof -
  from assms(2) have "get_user reg (username u) \<noteq> None"
    by (simp add: get_user_None_iff)
  then obtain i v where iv: "get_user reg (username u) = Some (i, v)" by auto
  then have *: "i < length reg" "reg ! i = v" "username v = username u"
    using get_user_SomeD by blast+
  then have "v \<in> set reg" by auto
  moreover from assms(1) have "inj_on username (set reg)" by (simp add: distinct_map)
  ultimately have "v = u" using assms(2) * by (auto dest: inj_onD)
  with iv * show ?thesis by simp
qed

lemma login_authenticated_conflict:
  assumes "login_id \<in> set (snd (active_logged_in_users e (now rq) False reg))"
    and "resolve reg rq = Some c"
  shows "UserManager_login e rq login_id lims reg =
           (Inl (if username (reg ! c) = login_id then AlreadyLoggedIn
                 else LoggedInSomewhereElse),
            update_active_users e (now rq) reg)"
proof -
  from assms(2) have c: "c < length reg" by (rule resolve_SomeD)
  have r: "resolve (update_active_users e (now rq) reg) rq = Some c"
    using assms(2) by (simp add: resolve_sweep)
  show ?thesis
    unfolding UserManager_login_unfold
      self_conflict_authenticated [OF assms(1) [unfolded active_users_all] r]
    using c by (simp add: sweep_username_nth)
qed

lemma login_anonymous_conflict:
  assumes act: "login_id \<in> set (snd (active_logged_in_users e (now rq) False reg))"
    and anon: "resolve reg rq = None"
    and dist: "distinct (map username reg)"
  shows "\<exists>i u. get_user (update_active_users e (now rq) reg) login_id = Some (i, u) \<and>
           active u \<and>
           login_id \<notin> username ` set (delete_user i (update_active_users e (now rq) reg)) \<and>
           UserManager_login e rq login_id lims reg =
             UserManager_login e rq login_id lims
               (delete_user i (update_active_users e (now rq) reg)) \<and>
           (\<exists>r. UserManager_login e rq login_id lims reg =
                  (r, delete_user i (update_active_users e (now rq) reg)) \<and>
                r \<noteq> Inl AlreadyLoggedIn \<and> r \<noteq> Inl LoggedInSomewhereElse)"
proof -
  define swept where "swept = update_active_users e (now rq) reg"
  define names where "names = snd (active_logged_in_users e (now rq) False reg)"
  from act obtain u where u: "u \<in> set swept" "active u" "username u = login_id"
    by (auto simp: active_users_all swept_def)
  from dist have ds: "distinct (map username swept)"
    by (simp add: swept_def sweep_usernames)
  from get_user_distinct [OF ds u(1)] u(3) obtain i where
    i: "get_user swept login_id = Some (i, u)" "i < length swept" by auto
  then have ui: "swept ! i = u" using get_user_SomeD by blast
  define R where "R = delete_user i swept"
  have gone: "login_id \<notin> username ` set R"
    using delete_user_name_gone [OF ds i(2)] ui u(3) by (simp add: R_def)
  have fixR: "update_active_users e (now rq) R = R"
    by (simp add: R_def swept_def sweep_delete_fixed)
  have anon_s: "resolve swept rq = None"
    using anon by (simp add: swept_def resolve_sweep)
  have anon_R: "resolve R rq = None"
    using anon_s by (rule resolve_None_shorter) (simp add: R_def length_delete_user)
  have not_R: "login_id \<notin> set (snd (active_logged_in_users e (now rq) False R))"
    using gone by (auto simp: active_users_all fixR)
  have lhs: "UserManager_login e rq login_id lims reg =
               login_admission e rq login_id lims names R"
    unfolding UserManager_login_unfold
    using self_conflict_anonymous
            [OF act [unfolded active_users_all] anon_s [unfolded swept_def]
                i(1) [unfolded swept_def]]
    by (simp add: names_def R_def swept_def active_users_all)
  have rhs: "UserManager_login e rq login_id lims R =
               login_admission e rq login_id lims
                 (snd (active_logged_in_users e (now rq) False R)) R"
    unfolding UserManager_login_unfold
    using self_conflict_skip [OF not_R [unfolded active_users_all]]
    by (simp add: fixR active_users_all)
  have eq: "UserManager_login e rq login_id lims reg = UserManager_login e rq login_id lims R"
    unfolding lhs rhs by (rule admission_anonymous [OF anon_R])
  have sndR: "snd (UserManager_login e rq login_id lims reg) = R"
  proof (cases "is_inhouse_user e login_id \<and> \<not> is_local_host rq")
    case True
    then show ?thesis by (simp add: lhs admission_snd)
  next
    case False
    then show ?thesis by (simp add: lhs admission_snd fixR)
  qed
  have fstR: "fst (UserManager_login e rq login_id lims reg) \<noteq> Inl AlreadyLoggedIn"
      "fst (UserManager_login e rq login_id lims reg) \<noteq> Inl LoggedInSomewhereElse"
    using admission_no_self_conflict [of e rq login_id lims names R] by (simp_all add: lhs)
  have "\<exists>r. UserManager_login e rq login_id lims reg = (r, R) \<and>
            r \<noteq> Inl AlreadyLoggedIn \<and> r \<noteq> Inl LoggedInSomewhereElse"
    using sndR fstR by (cases "UserManager_login e rq login_id lims reg") auto
  with i u gone eq show ?thesis
    unfolding R_def swept_def by blast
qed


section \<open>The rule on a session of the same name\<close>

text \<open>
  C7. When \<open>login_id\<close> is the username of an active session (one that
  \<open>active_logged_in_users\<close> lists), the test on it decides before every other rule.
  A requester who is logged in is rejected, with "already logged in" when the
  requester is that user and with "logged in somewhere else" otherwise, and nothing
  but the sweep has touched the table. For an anonymous requester the stale session
  is deleted and the attempt goes on: its outcome is that of the same attempt on the
  table without that session, and it is neither of the two rejections.
\<close>

theorem self_conflict_first:
  assumes "login_id \<in> set (snd (active_logged_in_users e (now rq) False reg))"
  shows "(\<forall>c. resolve reg rq = Some c \<longrightarrow>
            UserManager_login e rq login_id lims reg =
              (Inl (if username (reg ! c) = login_id then AlreadyLoggedIn
                    else LoggedInSomewhereElse),
               update_active_users e (now rq) reg)) \<and>
         (resolve reg rq = None \<and> distinct (map username reg) \<longrightarrow>
            (\<exists>i u. get_user (update_active_users e (now rq) reg) login_id = Some (i, u) \<and>
               active u \<and>
               login_id \<notin> username ` set (delete_user i (update_active_users e (now rq) reg)) \<and>
               UserManager_login e rq login_id lims reg =
                 UserManager_login e rq login_id lims
                   (delete_user i (update_active_users e (now rq) reg)) \<and>
               (\<exists>r. UserManager_login e rq login_id lims reg =
                      (r, delete_user i (update_active_users e (now rq) reg)) \<and>
                    r \<noteq> Inl AlreadyLoggedIn \<and> r \<noteq> Inl LoggedInSomewhereElse)))"
  using login_authenticated_conflict [OF assms] login_anonymous_conflict [OF assms]
  by blast

theorem self_conflict_first_witness:
  "UserManager_login (beamline ''user'') (browser (Some 0) True 0) ''alice''
     (lims_answer True) [row ''alice'' True True None, row ''bob'' True False None] =
     (Inl AlreadyLoggedIn, [row ''alice'' True True None, row ''bob'' True False None]) \<and>
   UserManager_login (beamline ''user'') (browser (Some 1) True 0) ''alice''
     (lims_answer True) [row ''alice'' True True None, row ''bob'' True False None] =
     (Inl LoggedInSomewhereElse, [row ''alice'' True True None, row ''bob'' True False None]) \<and>
   UserManager_login (beamline ''user'') (browser None True 0) ''alice''
     (lims_answer True) [row ''alice'' True True None, row ''bob'' True False None] =
     (Inr ''res'', [row ''bob'' True False None])"
  using self_conflict_first
          [of "''alice''" "beamline ''user''" "browser (Some 0) True 0"
              "[row ''alice'' True True None, row ''bob'' True False None]" "lims_answer True"]
  by (simp add: login_simps sample_simps)

section \<open>Proposal exclusivity\<close>






section \<open>The first loop of update_operator\<close>

lemma find_user_None_iff: "find_user reg name = None \<longleftrightarrow> name \<notin> username ` set reg"
  by (induction reg) auto

lemma find_user_SomeD:
  "find_user reg name = Some i \<Longrightarrow> i < length reg \<and> username (reg ! i) = name"
  by (induction reg arbitrary: i) (auto split: if_splits)

lemma find_user_distinct:
  "distinct (map username reg) \<Longrightarrow> i < length reg \<Longrightarrow>
   find_user reg (username (reg ! i)) = Some i"
proof (induction reg arbitrary: i)
  case Nil
  then show ?case by simp
next
  case (Cons u us)
  show ?case
  proof (cases i)
    case 0
    then show ?thesis by simp
  next
    case (Suc k)
    with Cons.prems have k: "k < length us" by simp
    then have "username (us ! k) \<in> username ` set us" by simp
    moreover from Cons.prems have "username u \<notin> username ` set us" by simp
    ultimately have "username (us ! k) \<noteq> username u" by metis
    note k this
    with Cons Suc show ?thesis by simp
  qed
qed

lemma map_list_update_same: "f y = f (xs ! i) \<Longrightarrow> map f (xs[i := y]) = map f xs"
  by (cases "i < length xs") (auto intro!: nth_equalityI simp: nth_list_update)

lemma db_set_in_control_False_nth:
  "distinct (map username reg) \<Longrightarrow> i < length reg \<Longrightarrow>
   db_set_in_control (reg ! i) False reg = (Inr (), reg[i := (reg ! i)\<lparr>in_control := False\<rparr>])"
  by (simp add: db_set_in_control_def find_user_distinct)

lemma db_set_in_control_False_ok:
  "i < length reg \<Longrightarrow>
   \<exists>k < length reg. db_set_in_control (reg ! i) False reg =
      (Inr (), reg[k := (reg ! k)\<lparr>in_control := False\<rparr>])"
proof -
  assume "i < length reg"
  then have "find_user reg (username (reg ! i)) \<noteq> None"
    by (simp add: find_user_None_iff)
  then obtain k where "find_user reg (username (reg ! i)) = Some k" by auto
  then show ?thesis
    using find_user_SomeD by (auto simp: db_set_in_control_def)
qed

lemma demote_succeeds:
  "set is \<subseteq> {..<length reg} \<Longrightarrow>
   \<exists>b reg'. update_operator_demote e is aic reg = (Inr b, reg') \<and> length reg' = length reg"
proof (induction "is" arbitrary: aic reg)
  case Nil
  then show ?case by simp
next
  case (Cons i "is")
  then have i: "i < length reg" by simp
  show ?case
  proof (cases "is_authenticated e (reg ! i) \<and> in_control (reg ! i)")
    case True
    with Cons show ?thesis by simp
  next
    case False
    from db_set_in_control_False_ok [OF i] obtain k where
      k: "db_set_in_control (reg ! i) False reg = (Inr (), reg[k := (reg ! k)\<lparr>in_control := False\<rparr>])"
      by blast
    from Cons.prems have "set is \<subseteq> {..<length (reg[k := (reg ! k)\<lparr>in_control := False\<rparr>])}"
      by simp
    from Cons.IH [OF this, of aic] False k show ?thesis by auto
  qed
qed

lemma demote_closed:
  "distinct (map username reg) \<Longrightarrow> set is \<subseteq> {..<length reg} \<Longrightarrow>
   update_operator_demote e is aic reg =
     (Inr (aic \<or> (\<exists>i \<in> set is. is_authenticated e (reg ! i) \<and> in_control (reg ! i))),
      map (\<lambda>j. if j \<in> set is then demoted e (reg ! j) else reg ! j) [0..<length reg])"
proof (induction "is" arbitrary: aic reg)
  case Nil
  then show ?case by (simp add: map_nth)
next
  case (Cons i "is")
  then have i: "i < length reg" by simp
  show ?case
  proof (cases "is_authenticated e (reg ! i) \<and> in_control (reg ! i)")
    case True
    have "update_operator_demote e (i # is) aic reg = update_operator_demote e is True reg"
      using True by simp
    also have "\<dots> = (Inr (True \<or> (\<exists>i \<in> set is. is_authenticated e (reg ! i) \<and> in_control (reg ! i))),
      map (\<lambda>j. if j \<in> set is then demoted e (reg ! j) else reg ! j) [0..<length reg])"
      using Cons.prems by (intro Cons.IH) auto
    also have "\<dots> = (Inr (aic \<or> (\<exists>i \<in> set (i # is). is_authenticated e (reg ! i) \<and> in_control (reg ! i))),
      map (\<lambda>j. if j \<in> set (i # is) then demoted e (reg ! j) else reg ! j) [0..<length reg])"
      using True by (auto simp: demoted_def)
    finally show ?thesis .
  next
    case False
    define reg' where "reg' = reg[i := (reg ! i)\<lparr>in_control := False\<rparr>]"
    have d': "distinct (map username reg')"
      using Cons.prems(1) by (simp add: reg'_def map_list_update_same)
    have l': "length reg' = length reg" by (simp add: reg'_def)
    have "update_operator_demote e (i # is) aic reg = update_operator_demote e is aic reg'"
      using False db_set_in_control_False_nth [OF Cons.prems(1) i] by (auto simp: reg'_def)
    also have "\<dots> = (Inr (aic \<or> (\<exists>k \<in> set is. is_authenticated e (reg' ! k) \<and> in_control (reg' ! k))),
      map (\<lambda>j. if j \<in> set is then demoted e (reg' ! j) else reg' ! j) [0..<length reg'])"
      using Cons.prems d' l' by (intro Cons.IH) auto
    also have "\<dots> = (Inr (aic \<or> (\<exists>k \<in> set (i # is). is_authenticated e (reg ! k) \<and> in_control (reg ! k))),
      map (\<lambda>j. if j \<in> set (i # is) then demoted e (reg ! j) else reg ! j) [0..<length reg])"
    proof -
      have a: "\<And>k. k < length reg \<Longrightarrow>
                 (is_authenticated e (reg' ! k) \<and> in_control (reg' ! k)) =
                 (k \<noteq> i \<and> is_authenticated e (reg ! k) \<and> in_control (reg ! k))"
        using i by (auto simp: reg'_def nth_list_update)
      have b: "\<And>j. j < length reg \<Longrightarrow>
                 (if j \<in> set is then demoted e (reg' ! j) else reg' ! j) =
                 (if j \<in> set (i # is) then demoted e (reg ! j) else reg ! j)"
        using i False by (auto simp: reg'_def nth_list_update demoted_def)
      have "(\<exists>k \<in> set is. is_authenticated e (reg' ! k) \<and> in_control (reg' ! k)) =
            (\<exists>k \<in> set (i # is). is_authenticated e (reg ! k) \<and> in_control (reg ! k))"
        using Cons.prems(2) False a by auto
      moreover have "map (\<lambda>j. if j \<in> set is then demoted e (reg' ! j) else reg' ! j) [0..<length reg'] =
            map (\<lambda>j. if j \<in> set (i # is) then demoted e (reg ! j) else reg ! j) [0..<length reg]"
        unfolding l' using b by (intro map_cong) auto
      ultimately show ?thesis by simp
    qed
    finally show ?thesis .
  qed
qed

lemma demote_all:
  assumes "distinct (map username reg)"
  shows "update_operator_demote e [0..<length reg] False reg =
           (Inr (\<exists>u \<in> set reg. is_authenticated e u \<and> in_control u), map (demoted e) reg)"
proof -
  have "(\<exists>i \<in> set [0..<length reg]. is_authenticated e (reg ! i) \<and> in_control (reg ! i)) =
        (\<exists>u \<in> set reg. is_authenticated e u \<and> in_control u)"
    by (metis atLeastLessThan_iff in_set_conv_nth le0 set_upt)
  moreover have "map (\<lambda>j. if j \<in> set [0..<length reg] then demoted e (reg ! j) else reg ! j)
                   [0..<length reg] = map (demoted e) reg"
    by (intro nth_equalityI) auto
  moreover have "set [0..<length reg] \<subseteq> {..<length reg}" by auto
  ultimately show ?thesis
    using demote_closed [OF assms, of "[0..<length reg]" e False] by simp
qed


lemma update_operator_closed:
  assumes "distinct (map username reg)" and "cu < length reg"
  shows "update_operator e cu new_login reg =
    (let D = map (demoted e) reg;
         reg2 = (if new_login then D[cu := (D ! cu)\<lparr>nickname := []\<rparr>] else D);
         reg4 =
           (if \<not> (\<exists>u \<in> set reg. is_authenticated e u \<and> in_control u)
            then map (\<lambda>u. u\<lparr>in_control := (username u = username (reg ! cu))\<rparr>)
                   (reg2[cu := (reg2 ! cu)\<lparr>nickname :=
                           (if \<not> user_mode e then get_proposal e (reg2 ! cu)
                            else username (reg ! cu))\<rparr>])
            else reg2)
     in (Inr (update_operator_select e reg4), reg4))"
proof -
  have un: "\<And>u. username (demoted e u) = username u"
    by (simp add: demoted_def)
  show ?thesis
    using assms
    by (cases new_login; cases "\<exists>u \<in> set reg. is_authenticated e u \<and> in_control u")
       (simp_all add: update_operator_def demote_all db_set_in_control_def Let_def un
          del: bex_simps)
qed

lemma update_operator_succeeds:
  assumes "cu < length reg"
  shows "\<exists>sel reg'. update_operator e cu new_login reg = (Inr sel, reg')"
proof -
  have "set [0..<length reg] \<subseteq> {..<length reg}" by auto
  from demote_succeeds [OF this, of e False] obtain b reg' where
    "update_operator_demote e [0..<length reg] False reg = (Inr b, reg')" by blast
  with assms show ?thesis
    by (simp add: update_operator_def db_set_in_control_def Let_def)
qed


section \<open>Granting control\<close>

lemma username_index:
  "distinct (map username reg) \<Longrightarrow> j < length reg \<Longrightarrow> k < length reg \<Longrightarrow>
   (username (reg ! j) = username (reg ! k)) = (j = k)"
  using nth_eq_iff_index_eq [of "map username reg" j k] by simp

lemma username_demoted: "username (demoted e u) = username u"
  by (simp add: demoted_def)

lemma in_control_demoted: "in_control (demoted e u) = (is_authenticated e u \<and> in_control u)"
  by (simp add: demoted_def)

lemma update_operator_length:
  assumes "distinct (map username reg)" and "cu < length reg"
  shows "length (snd (update_operator e cu new_login reg)) = length reg"
  by (simp add: update_operator_closed [OF assms] Let_def)

lemma update_operator_usernames:
  assumes "distinct (map username reg)" and "cu < length reg"
  shows "map username (snd (update_operator e cu new_login reg)) = map username reg"
  using assms(2)
  by (auto simp: update_operator_closed [OF assms] Let_def username_demoted
        nth_list_update intro!: nth_equalityI)

lemma update_operator_granted:
  assumes "distinct (map username reg)" and "cu < length reg"
    and "\<not> (\<exists>u \<in> set reg. is_authenticated e u \<and> in_control u)"
    and "j < length reg"
  shows "in_control (snd (update_operator e cu new_login reg) ! j) = (j = cu)"
  using assms username_index [OF assms(1) assms(4) assms(2)]
  by (simp add: update_operator_closed [OF assms(1,2)] Let_def username_demoted
        nth_list_update del: bex_simps)

lemma update_operator_kept:
  assumes "distinct (map username reg)" and "cu < length reg"
    and "\<exists>u \<in> set reg. is_authenticated e u \<and> in_control u"
    and "j < length reg"
  shows "in_control (snd (update_operator e cu new_login reg) ! j) =
           (is_authenticated e (reg ! j) \<and> in_control (reg ! j))"
  using assms
  by (simp add: update_operator_closed [OF assms(1,2)] Let_def in_control_demoted
        nth_list_update del: bex_simps)

text \<open>
  C4, as the code has it. Usernames are distinct and \<open>current_user\<close> is a row. If no
  authenticated session had \<open>in_control\<close> before \<open>update_operator\<close> runs, the current
  session is granted control and every other session ends with \<open>in_control = False\<close>.
  If some authenticated session had \<open>in_control\<close>, a session ends with
  \<open>in_control\<close> exactly when it was authenticated and in control before: sessions
  that are not authenticated lose the flag, and authenticated sessions keep it, also
  when there are several of them.
\<close>

theorem grant_on_login:
  assumes "distinct (map username reg)" and "cu < length reg"
  shows "length (snd (update_operator e cu new_login reg)) = length reg \<and>
         (\<not> (\<exists>u \<in> set reg. is_authenticated e u \<and> in_control u) \<longrightarrow>
            (\<forall>j < length reg.
               in_control (snd (update_operator e cu new_login reg) ! j) = (j = cu))) \<and>
         ((\<exists>u \<in> set reg. is_authenticated e u \<and> in_control u) \<longrightarrow>
            (\<forall>j < length reg.
               in_control (snd (update_operator e cu new_login reg) ! j) =
                 (is_authenticated e (reg ! j) \<and> in_control (reg ! j))))"
  using update_operator_length [OF assms] update_operator_granted [OF assms]
    update_operator_kept [OF assms]
  by blast

theorem grant_on_login_witness:
  "map in_control
     (snd (update_operator (beamline ''proposal'') 1 True
             [row ''a-1'' False True None, row ''b-2'' True False None])) = [False, True] \<and>
   map in_control
     (snd (update_operator (beamline ''proposal'') 1 True
             [row ''a-1'' True True None, row ''b-2'' True False None])) = [True, False]"
proof -
  have "map in_control
     (snd (update_operator (beamline ''proposal'') 1 True
             [row ''a-1'' False True None, row ''b-2'' True False None])) = [False, True] \<and>
   map in_control
     (snd (update_operator (beamline ''proposal'') 1 True
             [row ''a-1'' True True None, row ''b-2'' True False None])) = [True, False]"
    by code_simp
  moreover have "distinct (map username [row ''a-1'' False True None, row ''b-2'' True False None])"
    by (simp add: row_def)
  moreover have "1 < length [row ''a-1'' False True None, row ''b-2'' True False None]"
    by simp
  ultimately show ?thesis
    using grant_on_login
          [of "[row ''a-1'' False True None, row ''b-2'' True False None]" 1
              "beamline ''proposal''" True]
    by simp
qed

text \<open>
  A table with two active sessions in control, \<open>a-1\<close> and \<open>b-1\<close>, and the login of
  \<open>c-1\<close>: after \<open>update_operator\<close> both are still active and in control.
\<close>

theorem normalization_counterexample:
  "map active [row ''a-1'' True True None, row ''b-1'' True True None,
               row ''c-1'' True False None] = [True, True, True] \<and>
   map in_control
     (snd (update_operator (beamline ''proposal'') 2 True
             [row ''a-1'' True True None, row ''b-1'' True True None,
              row ''c-1'' True False None])) = [True, True, False] \<and>
   map active
     (snd (update_operator (beamline ''proposal'') 2 True
             [row ''a-1'' True True None, row ''b-1'' True True None,
              row ''c-1'' True False None])) = [True, True, True]"
  by code_simp


section \<open>The proposal of the operator\<close>

lemma update_operator_selects:
  "update_operator e cu new_login reg = (Inr sel, reg') \<Longrightarrow>
   sel = update_operator_select e reg'"
  by (auto simp: update_operator_def Let_def split: if_splits prod.splits sum.splits)

lemma select_filter:
  "update_operator_select e reg =
     concat (map (select_proposal_of e) (filter (\<lambda>u. is_authenticated e u \<and> in_control u) reg))"
  by (induction reg) (simp_all add: update_operator_select_def)

text \<open>
  C5. When \<open>update_operator\<close> returns, the proposals it has selected are those of
  the sessions that are authenticated and in control in the table it leaves, in the
  order of the table: outside the mode "user" the proposal that \<open>get_proposal\<close>
  gives for the session, in the mode "user" the stored \<open>selected_proposal\<close> if there
  is one, and nothing otherwise. With one such session, the operator, this is the
  one selection made (or none).
\<close>

theorem operator_proposal_selected:
  assumes "update_operator e cu new_login reg = (Inr sel, reg')"
  shows "sel = concat (map (\<lambda>u. if \<not> user_mode e then [get_proposal e u]
                               else (case selected_proposal u of
                                       None \<Rightarrow> []
                                     | Some p \<Rightarrow> if p \<noteq> [] then [p] else []))
                 (filter (\<lambda>u. is_authenticated e u \<and> in_control u) reg')) \<and>
         (\<forall>op. filter (\<lambda>u. is_authenticated e u \<and> in_control u) reg' = [op] \<longrightarrow>
            sel = (if \<not> user_mode e then [get_proposal e op]
                   else (case selected_proposal op of
                           None \<Rightarrow> []
                         | Some p \<Rightarrow> if p \<noteq> [] then [p] else [])))"
proof -
  have "select_proposal_of e =
          (\<lambda>u. if \<not> user_mode e then [get_proposal e u]
               else (case selected_proposal u of
                       None \<Rightarrow> []
                     | Some p \<Rightarrow> if p \<noteq> [] then [p] else []))"
    by (rule ext) (simp add: select_proposal_of_def)
  with update_operator_selects [OF assms] select_filter [of e reg']
  have "sel = concat (map (\<lambda>u. if \<not> user_mode e then [get_proposal e u]
                               else (case selected_proposal u of
                                       None \<Rightarrow> []
                                     | Some p \<Rightarrow> if p \<noteq> [] then [p] else []))
                 (filter (\<lambda>u. is_authenticated e u \<and> in_control u) reg'))"
    by simp
  then show ?thesis by simp
qed

theorem operator_proposal_selected_witness:
  "update_operator (beamline ''proposal'') 0 True [row ''12345-u1'' True False None] =
     (Inr [''12345''], [(row ''12345-u1'' True True None)\<lparr>nickname := ''12345''\<rparr>]) \<and>
   fst (update_operator (beamline ''user'') 0 True
          [(row ''alice'' True True None)\<lparr>selected_proposal := Some ''mx1''\<rparr>]) =
     Inr [''mx1''] \<and>
   fst (update_operator (beamline ''user'') 0 True [row ''alice'' True True None]) = Inr []"
proof -
  have c: "update_operator (beamline ''proposal'') 0 True [row ''12345-u1'' True False None] =
     (Inr [''12345''], [(row ''12345-u1'' True True None)\<lparr>nickname := ''12345''\<rparr>])"
    by code_simp
  have "fst (update_operator (beamline ''user'') 0 True
          [(row ''alice'' True True None)\<lparr>selected_proposal := Some ''mx1''\<rparr>]) =
     Inr [''mx1''] \<and>
   fst (update_operator (beamline ''user'') 0 True [row ''alice'' True True None]) = Inr []"
    by code_simp
  with c operator_proposal_selected [OF c] show ?thesis by simp
qed

section \<open>The nickname\<close>

text \<open>
  What \<open>update_operator\<close> does to the nickname of \<open>current_user\<close>, with usernames
  distinct and \<open>current_user\<close> a row. On a new login, when some authenticated session
  is in control on entry, the nickname is empty afterwards (in every login mode) and
  \<open>in_control\<close> of the current session is what it was. When no authenticated
  session is in control on entry, the current session is promoted and its nickname
  is what \<open>get_proposal\<close> gives for it outside the mode "user", and its username in
  the mode "user".
\<close>

lemma nickname_after_update_operator:
  assumes "distinct (map username reg)" and "cu < length reg"
  shows "((\<exists>u \<in> set reg. is_authenticated e u \<and> in_control u) \<longrightarrow>
            nickname (snd (update_operator e cu True reg) ! cu) = [] \<and>
            in_control (snd (update_operator e cu True reg) ! cu) =
              (is_authenticated e (reg ! cu) \<and> in_control (reg ! cu))) \<and>
         (\<not> (\<exists>u \<in> set reg. is_authenticated e u \<and> in_control u) \<longrightarrow>
            in_control (snd (update_operator e cu new_login reg) ! cu) \<and>
            nickname (snd (update_operator e cu new_login reg) ! cu) =
              (if \<not> user_mode e
               then get_proposal e
                      (if new_login then (reg ! cu)\<lparr>in_control := False, nickname := []\<rparr>
                       else (reg ! cu)\<lparr>in_control := False\<rparr>)
               else username (reg ! cu)))"
proof (intro conjI impI)
  assume a: "\<exists>u \<in> set reg. is_authenticated e u \<and> in_control u"
  with assms(2) show "nickname (snd (update_operator e cu True reg) ! cu) = []"
    by (simp add: update_operator_closed [OF assms] Let_def del: bex_simps)
  from a assms(2) show "in_control (snd (update_operator e cu True reg) ! cu) =
              (is_authenticated e (reg ! cu) \<and> in_control (reg ! cu))"
    by (simp add: update_operator_kept [OF assms a])
next
  assume a: "\<not> (\<exists>u \<in> set reg. is_authenticated e u \<and> in_control u)"
  then have d: "demoted e (reg ! cu) = (reg ! cu)\<lparr>in_control := False\<rparr>"
    using assms(2) by (auto simp: demoted_def)
  from a assms(2) show "in_control (snd (update_operator e cu new_login reg) ! cu)"
    by (simp add: update_operator_granted [OF assms a])
  from a assms(2) show "nickname (snd (update_operator e cu new_login reg) ! cu) =
              (if \<not> user_mode e
               then get_proposal e
                      (if new_login then (reg ! cu)\<lparr>in_control := False, nickname := []\<rparr>
                       else (reg ! cu)\<lparr>in_control := False\<rparr>)
               else username (reg ! cu))"
    by (simp add: update_operator_closed [OF assms] Let_def d del: bex_simps)
qed

text \<open>
  C9, where the code departs from it. In the mode "user" the first login of \<open>alice\<close>
  makes her the operator with her username as nickname. A request of hers is
  recorded at time 0, and at time 100 she logs in again: the sweep of that login
  deactivates her row and leaves its \<open>in_control\<close>, the login activates the row
  again, and \<open>update_operator\<close> finds her in control already. It empties the
  nickname, as on every new login, and does not set it: she is the operator, active
  and in control, with an empty nickname. The comment above the assignment reserves
  the emptying for a new observer.
\<close>

theorem relogin_operator_nickname_empty:
  "map (\<lambda>u. (username u, nickname u, active u, in_control u))
     (run (beamline ''user'')
        [Login (browser None True 0) ''alice'' (lims_answer True) ''s1'' ''u1''] []) =
     [(''alice'', ''alice'', True, True)] \<and>
   map (\<lambda>u. (username u, nickname u, active u, in_control u))
     (run (beamline ''user'')
        [Login (browser None True 0) ''alice'' (lims_answer True) ''s1'' ''u1'',
         Touch 0 0,
         Login (browser None True 100) ''alice'' (lims_answer True) ''s2'' ''u2''] []) =
     [(''alice'', [], True, True)]"
  by code_simp

section \<open>A login that fails\<close>

lemma db_create_user_Some:
  "\<exists>i reg'. db_create_user e usr lims_data sid uuid reg = (Some i, reg') \<and> i < length reg'"
proof -
  define uname where "uname = (if user_mode e then usr else usr @ ''-'' @ uuid)"
  show ?thesis
  proof (cases "find_user reg uname")
    case None
    define new where "new = create_user uname usr sid
                         (if \<not> user_mode e then Some usr else None)
                         lims_data (get_configured_roles e usr)"
    have "uname \<in> username ` set (reg @ [new])" by (simp add: new_def create_user_def)
    then have "find_user (reg @ [new]) uname \<noteq> None" by (simp only: find_user_None_iff not_not)
    then obtain i where "find_user (reg @ [new]) uname = Some i" by auto
    with None find_user_SomeD [OF this] show ?thesis
      by (simp add: db_create_user_def Let_def uname_def [symmetric] new_def [symmetric])
  next
    case (Some k)
    define reg' where "reg' = reg[k := append_roles ((reg ! k)\<lparr>limsdata := lims_data\<rparr>)
                            (get_configured_roles e usr)]"
    from find_user_SomeD [OF Some] have k: "k < length reg" "username (reg ! k) = uname"
      by simp_all
    then have "k < length reg'" by (simp add: reg'_def)
    then have "reg' ! k \<in> set reg'" by (rule nth_mem)
    moreover from k have "username (reg' ! k) = uname"
      by (simp add: reg'_def append_roles_def)
    ultimately have "uname \<in> username ` set reg'" by (metis imageI)
    then have "find_user reg' uname \<noteq> None" by (simp only: find_user_None_iff not_not)
    then obtain i where "find_user reg' uname = Some i" by auto
    with Some find_user_SomeD [OF this] show ?thesis
      by (simp add: db_create_user_def Let_def uname_def [symmetric] reg'_def [symmetric])
  qed
qed

lemma login_failure:
  assumes "fst (login e rq login_id lims sid uuid reg) = Inl err"
  shows "fst (UserManager_login e rq login_id lims reg) = Inl err \<and>
         snd (login e rq login_id lims sid uuid reg) =
           snd (UserManager_login e rq login_id lims reg)"
proof (cases "UserManager_login e rq login_id lims reg")
  case (Pair r reg1)
  show ?thesis
  proof (cases r)
    case (Inl x)
    with Pair assms show ?thesis by (simp add: login_def)
  next
    case (Inr res)
    from db_create_user_Some obtain i reg3 where
      c: "db_create_user e login_id res sid uuid (update_active_users e (now rq) reg1) = (Some i, reg3)"
         "i < length reg3" by blast
    from update_operator_succeeds [of i "reg3[i := activate_user (reg3 ! i)]" e True] c(2)
    obtain sel reg' where
      "update_operator e i True (reg3[i := activate_user (reg3 ! i)]) = (Inr sel, reg')"
      by auto
    with Pair Inr c(1) assms show ?thesis by (simp add: login_def Let_def)
  qed
qed

lemma UserManager_login_snd:
  "snd (UserManager_login e rq login_id lims reg) =
     (if login_id \<in> set (snd (active_logged_in_users e (now rq) False reg)) \<and>
         resolve reg rq = None
      then (case get_user (update_active_users e (now rq) reg) login_id of
              None \<Rightarrow> update_active_users e (now rq) reg
            | Some (i, u) \<Rightarrow> delete_user i (update_active_users e (now rq) reg))
      else update_active_users e (now rq) reg)"
proof -
  define swept where "swept = update_active_users e (now rq) reg"
  define names where "names = map username (filter active swept)"
  have u: "UserManager_login e rq login_id lims reg =
     (case login_self_conflict rq login_id names swept of
        (Inl err, reg2) \<Rightarrow> (Inl err, reg2)
      | (Inr x, reg2) \<Rightarrow> login_admission e rq login_id lims names reg2)"
    unfolding names_def swept_def by (rule UserManager_login_unfold)
  have f1: "update_active_users e (now rq) swept = swept"
    by (simp add: swept_def sweep_idem)
  have f2: "\<And>i. update_active_users e (now rq) (delete_user i swept) = delete_user i swept"
    by (simp add: swept_def sweep_delete_fixed)
  have r: "resolve swept rq = resolve reg rq"
    by (simp add: swept_def resolve_sweep)
  have "snd (UserManager_login e rq login_id lims reg) =
     (if login_id \<in> set names \<and> resolve reg rq = None
      then (case get_user swept login_id of
              None \<Rightarrow> swept
            | Some (i, u) \<Rightarrow> delete_user i swept)
      else swept)"
  proof (cases "login_id \<in> set names")
    case False
    then show ?thesis
      by (simp add: u self_conflict_skip admission_snd f1)
  next
    case True
    show ?thesis
    proof (cases "resolve reg rq")
      case (Some c)
      with True r show ?thesis
        by (simp add: u self_conflict_authenticated)
    next
      case None
      show ?thesis
      proof (cases "get_user swept login_id")
        case n: None
        with True None r show ?thesis
          by (simp add: u login_self_conflict_def force_signout_user_def)
      next
        case s: (Some p)
        obtain i v where p: "p = (i, v)" by (cases p)
        with True None r s show ?thesis
          by (simp add: u self_conflict_anonymous admission_snd f2)
      qed
    qed
  qed
  then show ?thesis
    unfolding names_def swept_def active_users_all .
qed

text \<open>
  C1, as the code has it. A login that raises has created, activated and promoted
  no session: the table it leaves is the table after the timeout sweep, which
  \<open>_login\<close> runs first, without the session named \<open>login_id\<close> when that session
  was active and the requester anonymous (it is deleted before the later rules are
  tested). Every row left is a row of the swept table. When no session has timed
  out and the requester is logged in, or no active session has the name, the table
  is unchanged.
\<close>

theorem failed_login_registry:
  assumes "fst (login e rq login_id lims sid uuid reg) = Inl err"
  shows "snd (login e rq login_id lims sid uuid reg) =
           (if login_id \<in> set (snd (active_logged_in_users e (now rq) False reg)) \<and>
               resolve reg rq = None
            then (case get_user (update_active_users e (now rq) reg) login_id of
                    None \<Rightarrow> update_active_users e (now rq) reg
                  | Some (i, u) \<Rightarrow> delete_user i (update_active_users e (now rq) reg))
            else update_active_users e (now rq) reg) \<and>
         set (snd (login e rq login_id lims sid uuid reg)) \<subseteq>
           set (update_active_users e (now rq) reg) \<and>
         length (snd (login e rq login_id lims sid uuid reg)) \<le> length reg \<and>
         ((\<forall>u \<in> set reg. \<not> timed_out e (now rq) u) \<and>
          (login_id \<notin> set (snd (active_logged_in_users e (now rq) False reg)) \<or>
           resolve reg rq \<noteq> None) \<longrightarrow>
            snd (login e rq login_id lims sid uuid reg) = reg)"
proof -
  let ?swept = "update_active_users e (now rq) reg"
  let ?after = "snd (login e rq login_id lims sid uuid reg)"
  have eq: "?after =
           (if login_id \<in> set (snd (active_logged_in_users e (now rq) False reg)) \<and>
               resolve reg rq = None
            then (case get_user ?swept login_id of
                    None \<Rightarrow> ?swept
                  | Some (i, u) \<Rightarrow> delete_user i ?swept)
            else ?swept)"
    using login_failure [OF assms] UserManager_login_snd [of e rq login_id lims reg] by simp
  have sub: "set ?after \<subseteq> set ?swept"
    unfolding eq using set_delete_user by (auto split: option.splits)
  have len: "length ?after \<le> length reg"
    unfolding eq using length_delete_user [of _ ?swept]
    by (auto simp: sweep_length split: option.splits)
  have same: "(\<forall>u \<in> set reg. \<not> timed_out e (now rq) u) \<and>
          (login_id \<notin> set (snd (active_logged_in_users e (now rq) False reg)) \<or>
           resolve reg rq \<noteq> None) \<longrightarrow> ?after = reg"
    unfolding eq by (auto simp: sweep_fixed)
  from eq sub len same show ?thesis by blast
qed

theorem failed_login_registry_witness:
  "login (beamline ''proposal'') (browser None True 0) ''67890'' (lims_answer True)
     ''sid'' ''uuid'' [row ''12345-u1'' True True None] =
     (Inl ProposalConflict, [row ''12345-u1'' True True None])"
proof -
  have c: "login (beamline ''proposal'') (browser None True 0) ''67890'' (lims_answer True)
     ''sid'' ''uuid'' [row ''12345-u1'' True True None] =
     (Inl ProposalConflict, [row ''12345-u1'' True True None])"
    by code_simp
  then have "fst (login (beamline ''proposal'') (browser None True 0) ''67890''
                    (lims_answer True) ''sid'' ''uuid'' [row ''12345-u1'' True True None]) =
               Inl ProposalConflict"
    by simp
  from failed_login_registry [OF this] c show ?thesis by simp
qed

text \<open>
  The anonymous login as \<open>alice\<close> with invalid credentials, while \<open>alice\<close> has an
  active session: the login raises and the session is gone.
\<close>

theorem failed_login_deletes_counterexample:
  "login (beamline ''user'') (browser None True 0) ''alice'' (lims_answer False)
     ''sid'' ''uuid'' [row ''alice'' True True None] = (Inl InvalidLogin, [])"
  by code_simp

section \<open>One operator\<close>

lemma filter_length_update:
  "(P y \<Longrightarrow> P (xs ! k)) \<Longrightarrow> length (filter P (xs[k := y])) \<le> length (filter P xs)"
proof (induction xs arbitrary: k)
  case Nil
  then show ?case by simp
next
  case (Cons x xs)
  then show ?case by (cases k) (auto simp: le_SucI)
qed

lemma filter_length_pointwise:
  "length xs' = length xs \<Longrightarrow> (\<And>j. j < length xs \<Longrightarrow> P (xs' ! j) \<Longrightarrow> P (xs ! j)) \<Longrightarrow>
   length (filter P xs') \<le> length (filter P xs)"
proof (induction xs' xs rule: list_induct2)
  case Nil
  then show ?case by simp
next
  case (Cons x' xs' x xs)
  have "length (filter P xs') \<le> length (filter P xs)"
    using Cons.prems [of "Suc j" for j] by (intro Cons.IH) auto
  moreover have "P x' \<Longrightarrow> P x" using Cons.prems [of 0] by simp
  ultimately show ?case by (auto simp: le_SucI)
qed

lemma filter_length_single:
  "(\<And>j. j < length xs \<Longrightarrow> P (xs ! j) = (j = c)) \<Longrightarrow> length (filter P xs) \<le> 1"
proof (induction xs arbitrary: c)
  case Nil
  then show ?case by simp
next
  case (Cons x xs)
  show ?case
  proof (cases c)
    case 0
    have "\<And>j. j < length xs \<Longrightarrow> \<not> P (xs ! j)"
      using Cons.prems [of "Suc j" for j] 0 by auto
    then have "filter P xs = []"
      by (auto simp: filter_empty_conv in_set_conv_nth)
    then show ?thesis by simp
  next
    case (Suc c')
    have "\<not> P x" using Cons.prems [of 0] Suc by simp
    moreover have "length (filter P xs) \<le> 1"
      using Cons.prems [of "Suc j" for j] Suc by (intro Cons.IH [of c']) auto
    ultimately show ?thesis by simp
  qed
qed

lemma filter_length_mono:
  "(\<And>x. P x \<Longrightarrow> Q x) \<Longrightarrow> length (filter P xs) \<le> length (filter Q xs)"
  by (induction xs) (auto simp: le_SucI)

lemma delete_user_Cons:
  "delete_user 0 (x # xs) = xs" "delete_user (Suc i) (x # xs) = x # delete_user i xs"
  by (simp_all add: delete_user_def)

lemma delete_user_filter: "length (filter P (delete_user i xs)) \<le> length (filter P xs)"
proof (induction xs arbitrary: i)
  case Nil
  then show ?case by (simp add: delete_user_def)
next
  case (Cons x xs)
  then show ?case by (cases i) (auto simp: delete_user_Cons le_SucI)
qed

lemma delete_user_distinct: "distinct (map f xs) \<Longrightarrow> distinct (map f (delete_user i xs))"
proof (induction xs arbitrary: i)
  case Nil
  then show ?case by (simp add: delete_user_def)
next
  case (Cons x xs)
  show ?case
  proof (cases i)
    case 0
    with Cons.prems show ?thesis by (simp add: delete_user_Cons)
  next
    case (Suc k)
    from Cons.prems have "f x \<notin> f ` set xs" "distinct (map f xs)" by simp_all
    with set_delete_user [of k xs] Cons.IH [of k] Suc show ?thesis
      by (auto simp: delete_user_Cons)
  qed
qed

lemma wf_delete: "well_formed reg \<Longrightarrow> well_formed (delete_user i reg)"
  using delete_user_filter [of in_control i reg]
  by (auto simp: well_formed_def delete_user_distinct)

lemma wf_update:
  "well_formed reg \<Longrightarrow> username y = username (reg ! k) \<Longrightarrow>
   (in_control y \<Longrightarrow> in_control (reg ! k)) \<Longrightarrow> well_formed (reg[k := y])"
  using filter_length_update [of in_control y reg k]
  by (auto simp: well_formed_def map_list_update_same)

lemma wf_sweep: "well_formed reg \<Longrightarrow> well_formed (update_active_users e t reg)"
proof -
  assume w: "well_formed reg"
  have "length (filter in_control (update_active_users e t reg)) \<le> length (filter in_control reg)"
    by (rule filter_length_pointwise)
       (auto simp: sweep_length sweep_nth deactivate_user_def split: if_splits)
  with w show ?thesis by (simp add: well_formed_def sweep_usernames)
qed

lemma wf_touch: "well_formed reg \<Longrightarrow> well_formed (touch i t reg)"
  by (auto simp: touch_def intro!: wf_update)

lemma wf_force_signout:
  "well_formed reg \<Longrightarrow> well_formed (snd (force_signout_user rq name reg))"
  by (auto simp: force_signout_user_def wf_delete split: option.splits)

lemma wf_db_set_in_control_False:
  "well_formed reg \<Longrightarrow> well_formed (snd (db_set_in_control usr False reg))"
  by (auto simp: db_set_in_control_def intro!: wf_update split: option.splits)

lemma wf_signout: "well_formed reg \<Longrightarrow> well_formed (snd (signout rq reg))"
proof -
  assume w: "well_formed reg"
  show ?thesis
  proof (cases "resolve reg rq")
    case None
    with w show ?thesis by (simp add: signout_def)
  next
    case (Some c)
    define r where "r = (if in_control (reg ! c) then db_set_in_control (reg ! c) False reg
                         else (Inr (), reg))"
    have wr: "well_formed (snd r)"
      using w wf_db_set_in_control_False [OF w, of "reg ! c"] by (simp add: r_def)
    have "snd (signout rq reg) = snd r \<or>
          snd (signout rq reg) = (snd r)[c := deactivate_user (snd r ! c)]"
      using Some by (cases r) (auto simp: signout_def r_def [symmetric] split: sum.splits)
    with wr show ?thesis
      by (auto simp: deactivate_user_def intro!: wf_update)
  qed
qed

lemma wf_UserManager_login:
  "well_formed reg \<Longrightarrow> well_formed (snd (UserManager_login e rq login_id lims reg))"
  by (auto simp: UserManager_login_snd wf_sweep wf_delete split: option.splits)

lemma wf_db_create_user:
  assumes "well_formed reg"
  shows "well_formed (snd (db_create_user e usr lims_data sid uuid reg))"
proof -
  define uname where "uname = (if user_mode e then usr else usr @ ''-'' @ uuid)"
  show ?thesis
  proof (cases "find_user reg uname")
    case None
    then have "uname \<notin> username ` set reg" by (simp add: find_user_None_iff)
    with assms None show ?thesis
      by (simp add: db_create_user_def Let_def uname_def [symmetric] well_formed_def
            create_user_def)
  next
    case (Some k)
    with assms show ?thesis
      by (auto simp: db_create_user_def Let_def uname_def [symmetric] append_roles_def
            intro!: wf_update)
  qed
qed

lemma wf_update_operator:
  assumes "well_formed reg" and "cu < length reg"
  shows "well_formed (snd (update_operator e cu new_login reg))"
proof -
  from assms(1) have d: "distinct (map username reg)" by (simp add: well_formed_def)
  let ?reg' = "snd (update_operator e cu new_login reg)"
  have l: "length ?reg' = length reg" by (rule update_operator_length [OF d assms(2)])
  have "length (filter in_control ?reg') \<le> 1"
  proof (cases "\<exists>u \<in> set reg. is_authenticated e u \<and> in_control u")
    case True
    have "length (filter in_control ?reg') \<le> length (filter in_control reg)"
      using l update_operator_kept [OF d assms(2) True]
      by (intro filter_length_pointwise) auto
    with assms(1) show ?thesis by (simp add: well_formed_def)
  next
    case False
    show ?thesis
      using l update_operator_granted [OF d assms(2) False]
      by (intro filter_length_single [of _ _ cu]) auto
  qed
  with d show ?thesis
    by (simp add: well_formed_def update_operator_usernames [OF d assms(2)])
qed

lemma wf_login:
  assumes "well_formed reg"
  shows "well_formed (snd (login e rq login_id lims sid uuid reg))"
proof (cases "UserManager_login e rq login_id lims reg")
  case (Pair r reg1)
  with wf_UserManager_login [OF assms, of e rq login_id lims] have w1: "well_formed reg1"
    by simp
  show ?thesis
  proof (cases r)
    case (Inl x)
    with Pair w1 show ?thesis by (simp add: login_def)
  next
    case (Inr res)
    define reg2 where "reg2 = update_active_users e (now rq) reg1"
    have w2: "well_formed reg2" using w1 by (simp add: reg2_def wf_sweep)
    from db_create_user_Some obtain i reg3 where
      c: "db_create_user e login_id res sid uuid reg2 = (Some i, reg3)" "i < length reg3"
      by blast
    with wf_db_create_user [OF w2, of e login_id res sid uuid] have w3: "well_formed reg3"
      by simp
    then have w4: "well_formed (reg3[i := activate_user (reg3 ! i)])"
      by (auto simp: activate_user_def intro!: wf_update)
    from c(2) have "i < length (reg3[i := activate_user (reg3 ! i)])" by simp
    from wf_update_operator [OF w4 this] Pair Inr c(1) show ?thesis
      by (simp add: login_def Let_def reg2_def [symmetric])
  qed
qed

lemma wf_step: "well_formed reg \<Longrightarrow> well_formed (step e op reg)"
  by (cases op) (simp_all add: wf_login wf_signout wf_force_signout wf_sweep wf_touch)

lemma wf_run: "well_formed reg \<Longrightarrow> well_formed (run e ops reg)"
  unfolding run_def by (induction ops arbitrary: reg) (simp_all add: wf_step)

text \<open>
  C2. After any sequence of logins, signouts, forced signouts, timeout sweeps and
  recorded requests that starts from the empty table, whether the operations return
  or raise, at most one session that is active and authenticated has \<open>in_control\<close>.
  Indeed at most one session has \<open>in_control\<close> at all, and usernames are distinct.
  Every prefix of a sequence is a sequence, so this holds after each operation.
\<close>

theorem single_operator:
  "length (filter (\<lambda>u. active u \<and> is_authenticated e u \<and> in_control u) (run e ops [])) \<le> 1 \<and>
   length (filter in_control (run e ops [])) \<le> 1 \<and>
   distinct (map username (run e ops []))"
proof -
  have "well_formed []" by (simp add: well_formed_def)
  then have w: "well_formed (run e ops [])" by (rule wf_run)
  have "length (filter (\<lambda>u. active u \<and> is_authenticated e u \<and> in_control u) (run e ops []))
          \<le> length (filter in_control (run e ops []))"
    by (rule filter_length_mono) simp
  with w show ?thesis by (simp add: well_formed_def)
qed

theorem single_operator_witness:
  "map (\<lambda>u. (username u, active u, in_control u))
     (run (beamline ''user'')
        [Login (browser None True 0) ''alice'' (lims_answer True) ''s1'' ''u1'',
         Login (browser None True 1) ''bob'' (lims_answer True) ''s2'' ''u2'',
         Touch 0 0, Touch 1 90, Sweep 100,
         Login (browser None True 100) ''carol'' (lims_answer True) ''s3'' ''u3''] []) =
     [(''alice'', False, False), (''bob'', True, False), (''carol'', True, True)]"
proof -
  have "map (\<lambda>u. (username u, active u, in_control u))
     (run (beamline ''user'')
        [Login (browser None True 0) ''alice'' (lims_answer True) ''s1'' ''u1'',
         Login (browser None True 1) ''bob'' (lims_answer True) ''s2'' ''u2'',
         Touch 0 0, Touch 1 90, Sweep 100,
         Login (browser None True 100) ''carol'' (lims_answer True) ''s3'' ''u3''] []) =
     [(''alice'', False, False), (''bob'', True, False), (''carol'', True, True)]"
    by code_simp
  with single_operator
         [of "beamline ''user''"
             "[Login (browser None True 0) ''alice'' (lims_answer True) ''s1'' ''u1'',
               Login (browser None True 1) ''bob'' (lims_answer True) ''s2'' ''u2'',
               Touch 0 0, Touch 1 90, Sweep 100,
               Login (browser None True 100) ''carol'' (lims_answer True) ''s3'' ''u3'']"]
  show ?thesis by simp
qed

end
